theory Spec2Isabelle
  imports Main
begin

section \<open>JavaScript values used by the metrics facade\<close>

text \<open>
  The facade of \<^verbatim>\<open>src/CountlyMetrics.ts\<close> (class \<^verbatim>\<open>MetricsProvider\<close>) is embedded
  as pure functions over an explicit state. Category names and feature flags are
  JavaScript strings at run time, so they are \<^typ>\<open>string\<close> here; the TypeScript unions
  \<^verbatim>\<open>consentTypes\<close> and \<^verbatim>\<open>metricFeatures\<close> only restrict what a typed caller may pass.

  A plain object is the list of its own enumerable properties in property order
  (the order that \<^verbatim>\<open>Object.keys\<close>, \<^verbatim>\<open>Object.values\<close> and the spread operator follow).
\<close>

type_synonym 'v js_object = "(string \<times> 'v) list"

definition Object_keys :: "'v js_object \<Rightarrow> string list" where
  "Object_keys obj = map fst obj"

definition Object_values :: "'v js_object \<Rightarrow> 'v list" where
  "Object_values obj = map snd obj"

text \<open>\<^verbatim>\<open>Array.prototype.flat()\<close> with its default depth 1, on an array of arrays of strings.\<close>

definition flat :: "'a list list \<Rightarrow> 'a list" where
  "flat xss = concat xss"

text \<open>
  Defining a property in an object literal after a spread: an existing own key keeps its
  position and takes the new value, a new key that is not an array index goes last.
\<close>

fun set_property :: "string \<Rightarrow> 'v \<Rightarrow> 'v js_object \<Rightarrow> 'v js_object" where
  "set_property k v [] = [(k, v)]"
| "set_property k v ((k', v') # ps) =
     (if k' = k then (k, v) # ps else (k', v') # set_property k v ps)"





text \<open>
  A JavaScript \<^verbatim>\<open>Set\<close> of strings keeps insertion order: it is the list of its members,
  without repetition, oldest first. \<^verbatim>\<open>add\<close> of a member changes nothing.
\<close>

type_synonym js_set = "string list"

definition Set_add :: "string \<Rightarrow> js_set \<Rightarrow> js_set" where
  "Set_add c s = (if c \<in> set s then s else s @ [c])"

definition Set_delete :: "string \<Rightarrow> js_set \<Rightarrow> js_set" where
  "Set_delete c s = removeAll c s"

definition Set_has :: "js_set \<Rightarrow> string \<Rightarrow> bool" where
  "Set_has s c \<longleftrightarrow> c \<in> set s"

definition new_Set :: "string list \<Rightarrow> js_set" where
  "new_Set xs = fold Set_add xs []"

text \<open>
  An optional property of an options object: missing, present with the value
  \<^verbatim>\<open>undefined\<close> or \<^verbatim>\<open>null\<close>, or present with a value. A spread copies every own
  property, also one whose value is \<^verbatim>\<open>undefined\<close>.
\<close>

datatype 'a optional = Absent | Undefined_value | Null | Value 'a

definition spread :: "'a optional \<Rightarrow> 'a optional \<Rightarrow> 'a optional" where
  "spread earlier later = (case later of Absent \<Rightarrow> earlier | _ \<Rightarrow> later)"

text \<open>\<^verbatim>\<open>x ?? null\<close> and the later \<^verbatim>\<open>!= null\<close> test: only a real value counts.\<close>

definition nullish :: "'a optional \<Rightarrow> 'a option" where
  "nullish p = (case p of Value v \<Rightarrow> Some v | _ \<Rightarrow> None)"

definition truthy :: "bool optional \<Rightarrow> bool" where
  "truthy p = (case p of Value b \<Rightarrow> b | _ \<Rightarrow> False)"

text \<open>A parameter with a default value: the default stands in for a missing argument.\<close>

definition default_arg :: "'a \<Rightarrow> 'a option \<Rightarrow> 'a" where
  "default_arg d x = (case x of None \<Rightarrow> d | Some v \<Rightarrow> v)"

text \<open>An argument of type \<^verbatim>\<open>T | T[]\<close>, and the \<^verbatim>\<open>Array.isArray\<close> normalisation.\<close>

datatype 'a one_or_many = One 'a | Many "'a list"

fun to_array :: "'a one_or_many \<Rightarrow> 'a list" where
  "to_array (One c) = [c]"
| "to_array (Many cs) = cs"


section \<open>The collaborators\<close>

text \<open>
  The payload types of the tracking calls belong to the analytics SDK; the facade hands
  them on unread.
\<close>

typedecl CountlyEvent
typedecl IgnoreList
typedecl Segments
typedecl Error

text \<open>
  The analytics service is an external object. What the facade does to it is the
  sequence of calls it makes, oldest first.
\<close>

datatype call =
    init
  | group_features "string list js_object"
  | track_clicks
  | track_forms
  | track_links
  | track_scrolls
  | track_sessions
  | track_errors
  | track_pageview
  | track_view "string option" "IgnoreList option" "Segments option"
  | add_consent "string list"
  | remove_consent "string list" bool
  | add_event CountlyEvent
  | recordError Error bool "Segments option"
  | begin_session bool bool
  | end_session "nat option" bool

text \<open>
  \<^verbatim>\<open>T extends CountlyWebSdk | CountlyNodeSdk\<close>: the web SDK defines the click, form,
  link, scroll and session trackers, the node SDK does not.
\<close>

record CountlySdk =
  calls :: "call list"
  web :: bool

text \<open>
  Modelled from the spec: the class \<^verbatim>\<open>StorageProvider\<close> (\<^verbatim>\<open>src/StorageProvider.ts\<close>
  is not among the sources), the storage collaborator that holds the persisted list of
  category names. The record keeps the stored list and, for the theorems about writes,
  every list passed to \<^verbatim>\<open>setStore\<close>, oldest first.
\<close>

record StorageProvider =
  store :: "string list"
  setStore_calls :: "string list list"

text \<open>
  Modelled from the spec: \<^verbatim>\<open>StorageProvider.getStore\<close> (not among the sources) returns
  the list of category names, the empty list if nothing is stored.
\<close>

definition getStore :: "StorageProvider \<Rightarrow> string list" where
  "getStore p = store p"

text \<open>
  Modelled from the spec: \<^verbatim>\<open>StorageProvider.setStore\<close> (not among the sources) writes
  the full list, overwriting prior contents.
\<close>

definition setStore :: "string list \<Rightarrow> StorageProvider \<Rightarrow> StorageProvider" where
  "setStore categories p =
     p\<lparr>store := categories, setStore_calls := setStore_calls p @ [categories]\<rparr>"


section \<open>The facade\<close>

text \<open>
  What a call can raise: a \<^verbatim>\<open>TypeError\<close> of the language (a call of something that
  is not a function, a property read on \<^verbatim>\<open>undefined\<close>), or any other exception
  thrown inside the service.
\<close>

datatype error = TypeError | ServiceError





record MetricsProvider =
  sessionStarted :: bool
  consentGranted :: js_set
  metricsService :: CountlySdk
  storageProvider :: "StorageProvider option"
  initDone :: bool

text \<open>
  The options that the constructor reads, and the constant \<^verbatim>\<open>COUNTLY_SETUP_DEFAULTS\<close>
  (\<^verbatim>\<open>src/config.ts\<close> is not among the sources: it is a parameter of the constructor).
\<close>

record options =
  opt_autoTrack :: "bool optional"
  opt_storageProvider :: "StorageProvider optional"

record config = options +
  cfg_metricsService :: CountlySdk

definition service_call :: "call \<Rightarrow> MetricsProvider \<Rightarrow> MetricsProvider" where
  "service_call c s =
     s\<lparr>metricsService := (metricsService s)\<lparr>calls := calls (metricsService s) @ [c]\<rparr>\<rparr>"

definition mapAllEvents :: "string list js_object \<Rightarrow> string list js_object" where
  "mapAllEvents eventMap = set_property ''all'' (flat (Object_values eventMap)) eventMap"

definition groupedFeatures :: "string list js_object" where
  "groupedFeatures = mapAllEvents
     [(''minimal'', [''sessions'', ''views'', ''events'']),
      (''performance'', [''crashes'', ''apm'']),
      (''ux'', [''scrolls'', ''clicks'', ''forms'']),
      (''feedback'', [''star-rating'', ''feedback'']),
      (''location'', [''location''])]"

text \<open>The getter \<^verbatim>\<open>consentGranted\<close>: the members of the set, in insertion order.\<close>

definition get_consentGranted :: "MetricsProvider \<Rightarrow> string list" where
  "get_consentGranted s = consentGranted s"

text \<open>\<^verbatim>\<open>webSdk.track_clicks?.()\<close>: the call is made when the service defines the method.\<close>

definition optional_call :: "call \<Rightarrow> MetricsProvider \<Rightarrow> MetricsProvider" where
  "optional_call c s = (if web (metricsService s) then service_call c s else s)"

definition setupAutoTrack :: "MetricsProvider \<Rightarrow> MetricsProvider" where
  "setupAutoTrack s =
     (let s = optional_call track_clicks s;
          s = optional_call track_forms s;
          s = optional_call track_links s;
          s = optional_call track_scrolls s;
          s = optional_call track_sessions s;
          s = service_call track_errors s;
          s = service_call track_pageview s
      in service_call (track_view None None None) s)"

definition setConsentStore :: "MetricsProvider \<Rightarrow> MetricsProvider" where
  "setConsentStore s =
     (case storageProvider s of
        Some p \<Rightarrow>
          if initDone s then s\<lparr>storageProvider := Some (setStore (consentGranted s) p)\<rparr>
          else s
      | None \<Rightarrow> s)"

definition getConsentStore :: "MetricsProvider \<Rightarrow> string list" where
  "getConsentStore s = (case storageProvider s of Some p \<Rightarrow> getStore p | None \<Rightarrow> [])"

definition addConsent :: "string one_or_many \<Rightarrow> MetricsProvider \<Rightarrow> MetricsProvider" where
  "addConsent consent s =
     (let consent = to_array consent;
          s = s\<lparr>consentGranted := fold Set_add consent (consentGranted s)\<rparr>;
          s = service_call (add_consent consent) s
      in setConsentStore s)"

definition removeConsent :: "string one_or_many \<Rightarrow> MetricsProvider \<Rightarrow> MetricsProvider" where
  "removeConsent consent s =
     (let consent = to_array consent;
          s = s\<lparr>consentGranted := fold Set_delete consent (consentGranted s)\<rparr>;
          s = service_call (remove_consent consent True) s
      in setConsentStore s)"


text \<open>The body of the \<^verbatim>\<open>forEach\<close> of \<^verbatim>\<open>updateConsent\<close>, and the loop over the keys.\<close>

definition update_group :: "js_set \<Rightarrow> string \<Rightarrow> MetricsProvider \<Rightarrow> MetricsProvider" where
  "update_group approvedConsent groupName s =
     (if Set_has approvedConsent groupName then addConsent (One groupName) s
      else removeConsent (One groupName) s)"

fun forEach_group :: "js_set \<Rightarrow> string list \<Rightarrow> MetricsProvider \<Rightarrow> MetricsProvider" where
  "forEach_group approvedConsent [] s = s"
| "forEach_group approvedConsent (groupName # rest) s =
     forEach_group approvedConsent rest (update_group approvedConsent groupName s)"

definition updateConsent :: "string list \<Rightarrow> MetricsProvider \<Rightarrow> MetricsProvider" where
  "updateConsent consent s =
     (let approvedConsent = new_Set consent
      in forEach_group approvedConsent (Object_keys groupedFeatures) s)"

definition trackView ::
  "string option \<Rightarrow> IgnoreList option \<Rightarrow> Segments option \<Rightarrow> MetricsProvider \<Rightarrow> MetricsProvider" where
  "trackView page ignoreList viewSegments s = service_call (track_view page ignoreList viewSegments) s"

definition trackEvent :: "CountlyEvent \<Rightarrow> MetricsProvider \<Rightarrow> MetricsProvider" where
  "trackEvent event s = service_call (add_event event) s"

text \<open>The default of \<^verbatim>\<open>segments\<close> is the empty object, written \<open>None\<close> here.\<close>

definition trackError ::
  "Error \<Rightarrow> bool option \<Rightarrow> Segments option \<Rightarrow> MetricsProvider \<Rightarrow> MetricsProvider" where
  "trackError err nonFatal segments s =
     service_call (recordError err (default_arg True nonFatal) segments) s"

definition startSession :: "bool option \<Rightarrow> bool option \<Rightarrow> MetricsProvider \<Rightarrow> MetricsProvider" where
  "startSession noHeartBeat force s =
     (if \<not> sessionStarted s then
        service_call (begin_session (default_arg False noHeartBeat) (default_arg False force))
          (s\<lparr>sessionStarted := True\<rparr>)
      else s)"

definition endSession :: "bool option \<Rightarrow> MetricsProvider \<Rightarrow> MetricsProvider" where
  "endSession force s =
     (if sessionStarted s then
        (service_call (end_session None (default_arg False force)) s)\<lparr>sessionStarted := False\<rparr>
      else s)"

text \<open>
  The constructor, after the field initialisers. \<^verbatim>\<open>EventAccumulator\<close> is built from the
  service and kept in a field that no method below reads; it is left out.
\<close>

definition constructor :: "options \<Rightarrow> config \<Rightarrow> MetricsProvider" where
  "constructor COUNTLY_SETUP_DEFAULTS cfg =
     (let autoTrack = spread (opt_autoTrack COUNTLY_SETUP_DEFAULTS) (opt_autoTrack cfg);
          provider = spread (opt_storageProvider COUNTLY_SETUP_DEFAULTS)
                       (opt_storageProvider cfg);
          s = \<lparr>sessionStarted = False, consentGranted = [],
               metricsService = cfg_metricsService cfg,
               storageProvider = nullish provider, initDone = False\<rparr>;
          s = service_call init s;
          s = service_call (group_features groupedFeatures) s;
          s = (if truthy autoTrack then setupAutoTrack s else s);
          existingConsent = getConsentStore s;
          s = (if length existingConsent > 0 then addConsent (Many existingConsent) s else s)
      in s\<lparr>initDone := True\<rparr>)"


section \<open>Sequences of calls on the facade\<close>

text \<open>The methods of the class that return nothing, as operations on the state.\<close>

datatype op =
    AddConsent "string one_or_many"
  | RemoveConsent "string one_or_many"
  | UpdateConsent "string list"
  | SetupAutoTrack
  | TrackView "string option" "IgnoreList option" "Segments option"
  | TrackEvent CountlyEvent
  | TrackError Error "bool option" "Segments option"
  | StartSession "bool option" "bool option"
  | EndSession "bool option"

fun step :: "op \<Rightarrow> MetricsProvider \<Rightarrow> MetricsProvider" where
  "step (AddConsent c) s = addConsent c s"
| "step (RemoveConsent c) s = removeConsent c s"
| "step (UpdateConsent cs) s = updateConsent cs s"
| "step SetupAutoTrack s = setupAutoTrack s"
| "step (TrackView p i v) s = trackView p i v s"
| "step (TrackEvent e) s = trackEvent e s"
| "step (TrackError e n g) s = trackError e n g s"
| "step (StartSession n f) s = startSession n f s"
| "step (EndSession f) s = endSession f s"

fun run :: "op list \<Rightarrow> MetricsProvider \<Rightarrow> MetricsProvider" where
  "run [] s = s"
| "run (x # xs) s = run xs (step x s)"


section \<open>Reading the log of service calls\<close>

text \<open>The calls that reached the service between two moments.\<close>

definition issued :: "CountlySdk \<Rightarrow> CountlySdk \<Rightarrow> call list" where
  "issued before after = drop (length (calls before)) (calls after)"

text \<open>The category names that a consent call hands to the service.\<close>

fun consent_names :: "call \<Rightarrow> string list" where
  "consent_names (add_consent cs) = cs"
| "consent_names (remove_consent cs b) = cs"
| "consent_names c = []"

fun is_add_consent :: "call \<Rightarrow> bool" where
  "is_add_consent (add_consent cs) = True"
| "is_add_consent c = False"

fun is_begin_session :: "call \<Rightarrow> bool" where
  "is_begin_session (begin_session n f) = True"
| "is_begin_session c = False"

fun is_end_session :: "call \<Rightarrow> bool" where
  "is_end_session (end_session d f) = True"
| "is_end_session c = False"

text \<open>
  Reading a log with a session open or not: a begin is legal only when none is open, an
  end only when one is. The result is whether a session is open at the end, or \<open>None\<close>
  when the log breaks the alternation.
\<close>

fun session_trace :: "bool \<Rightarrow> call list \<Rightarrow> bool option" where
  "session_trace active [] = Some active"
| "session_trace active (begin_session n f # cs) =
     (if active then None else session_trace True cs)"
| "session_trace active (end_session d f # cs) =
     (if active then session_trace False cs else None)"
| "session_trace active (c # cs) = session_trace active cs"

definition alternates :: "call list \<Rightarrow> bool" where
  "alternates cs \<longleftrightarrow> session_trace False cs \<noteq> None"

text \<open>Whether an operation hands the name to the ledger for adding.\<close>

fun supplies :: "string \<Rightarrow> op \<Rightarrow> bool" where
  "supplies n (AddConsent c) = (n \<in> set (to_array c))"
| "supplies n (UpdateConsent cs) = (n \<in> set cs)"
| "supplies n x = False"

text \<open>The storage provider that the constructor ends up with, and the list it reads from it.\<close>

definition configured_provider :: "options \<Rightarrow> config \<Rightarrow> StorageProvider option" where
  "configured_provider defaults cfg =
     nullish (spread (opt_storageProvider defaults) (opt_storageProvider cfg))"

definition persisted :: "options \<Rightarrow> config \<Rightarrow> string list" where
  "persisted defaults cfg =
     (case configured_provider defaults cfg of Some p \<Rightarrow> getStore p | None \<Rightarrow> [])"


section \<open>A concrete facade\<close>

text \<open>
  Defaults that switch automatic tracking on, a web service with an empty log, and a
  storage provider that holds the consent of an earlier visit.
\<close>

definition example_defaults :: options where
  "example_defaults = \<lparr>opt_autoTrack = Value True, opt_storageProvider = Absent\<rparr>"

definition example_service :: CountlySdk where
  "example_service = \<lparr>calls = [], web = True\<rparr>"

definition example_config :: config where
  "example_config =
     \<lparr>opt_autoTrack = Absent,
      opt_storageProvider = Value \<lparr>store = [''performance''], setStore_calls = []\<rparr>,
      cfg_metricsService = example_service\<rparr>"

definition example_facade :: MetricsProvider where
  "example_facade = constructor example_defaults example_config"

text \<open>The same without a storage provider: the option is there, and null.\<close>

definition example_config_no_storage :: config where
  "example_config_no_storage =
     \<lparr>opt_autoTrack = Value False, opt_storageProvider = Null,
      cfg_metricsService = example_service\<rparr>"




text \<open>
  A storage provider that still holds a name of an earlier catalog next to a current
  one.
\<close>

definition example_config_legacy :: config where
  "example_config_legacy =
     \<lparr>opt_autoTrack = Value False,
      opt_storageProvider =
        Value \<lparr>store = [''necessary'', ''performance''], setStore_calls = []\<rparr>,
      cfg_metricsService = example_service\<rparr>"

text \<open>The names that an operation hands to \<^verbatim>\<open>addConsent\<close> as they are.\<close>

fun added_names :: "op \<Rightarrow> string list" where
  "added_names (AddConsent c) = to_array c"
| "added_names x = []"


section \<open>Basic facts\<close>

lemma Object_keys_groupedFeatures:
  "Object_keys groupedFeatures =
     [''minimal'', ''performance'', ''ux'', ''feedback'', ''location'', ''all'']"
  by (simp add: groupedFeatures_def mapAllEvents_def Object_keys_def Object_values_def flat_def)

lemma set_fold_Set_add: "set (fold Set_add cs l) = set l \<union> set cs"
  by (induction cs arbitrary: l) (auto simp: Set_add_def)

lemma fold_Set_delete: "fold Set_delete cs l = filter (\<lambda>x. x \<notin> set cs) l"
  by (induction cs arbitrary: l)
     (auto simp: Set_delete_def removeAll_filter_not_eq intro: filter_cong)

lemma set_new_Set: "set (new_Set xs) = set xs"
  by (simp add: new_Set_def set_fold_Set_add)

lemma service_call_fields:
  "sessionStarted (service_call c s) = sessionStarted s"
  "consentGranted (service_call c s) = consentGranted s"
  "storageProvider (service_call c s) = storageProvider s"
  "initDone (service_call c s) = initDone s"
  "calls (metricsService (service_call c s)) = calls (metricsService s) @ [c]"
  "web (metricsService (service_call c s)) = web (metricsService s)"
  by (simp_all add: service_call_def)

lemma setConsentStore_fields:
  "sessionStarted (setConsentStore s) = sessionStarted s"
  "consentGranted (setConsentStore s) = consentGranted s"
  "metricsService (setConsentStore s) = metricsService s"
  "initDone (setConsentStore s) = initDone s"
  by (simp_all add: setConsentStore_def split: option.splits)

lemma addConsent_fields:
  "sessionStarted (addConsent c s) = sessionStarted s"
  "consentGranted (addConsent c s) = fold Set_add (to_array c) (consentGranted s)"
  "calls (metricsService (addConsent c s)) =
     calls (metricsService s) @ [add_consent (to_array c)]"
  "web (metricsService (addConsent c s)) = web (metricsService s)"
  "initDone (addConsent c s) = initDone s"
  by (simp_all add: addConsent_def Let_def setConsentStore_fields service_call_fields)

lemma removeConsent_fields:
  "sessionStarted (removeConsent c s) = sessionStarted s"
  "consentGranted (removeConsent c s) = fold Set_delete (to_array c) (consentGranted s)"
  "calls (metricsService (removeConsent c s)) =
     calls (metricsService s) @ [remove_consent (to_array c) True]"
  "web (metricsService (removeConsent c s)) = web (metricsService s)"
  "initDone (removeConsent c s) = initDone s"
  by (simp_all add: removeConsent_def Let_def setConsentStore_fields service_call_fields)

text \<open>The loop of \<^verbatim>\<open>updateConsent\<close>, over any list of keys.\<close>

lemma forEach_group_fold: "forEach_group A ks s = fold (update_group A) ks s"
  by (induction ks arbitrary: s) simp_all

lemma forEach_group_calls:
  "calls (metricsService (forEach_group A ks s)) =
     calls (metricsService s) @
     map (\<lambda>k. if k \<in> set A then add_consent [k] else remove_consent [k] True) ks"
  by (induction ks arbitrary: s)
     (simp_all add: update_group_def Set_has_def addConsent_fields removeConsent_fields)

lemma forEach_group_members:
  "set (consentGranted (forEach_group A ks s)) =
     (set (consentGranted s) - set ks) \<union> (set ks \<inter> set A)"
proof (induction ks arbitrary: s)
  case Nil
  show ?case by simp
next
  case (Cons k ks)
  show ?case
    by (auto simp: Cons.IH update_group_def Set_has_def addConsent_fields removeConsent_fields
        Set_add_def Set_delete_def)
qed

lemma forEach_group_cong:
  "(\<And>k. k \<in> set ks \<Longrightarrow> (k \<in> set A) = (k \<in> set B)) \<Longrightarrow>
     forEach_group A ks s = forEach_group B ks s"
  by (induction ks arbitrary: s) (simp_all add: update_group_def Set_has_def)

text \<open>The example facade, evaluated.\<close>

lemma example_facade_value:
  "example_facade =
     \<lparr>sessionStarted = False, consentGranted = [''performance''],
      metricsService = \<lparr>calls =
        [init, group_features groupedFeatures, track_clicks, track_forms, track_links,
         track_scrolls, track_sessions, track_errors, track_pageview,
         track_view None None None, add_consent [''performance'']], web = True\<rparr>,
      storageProvider = Some \<lparr>store = [''performance''], setStore_calls = []\<rparr>,
      initDone = True\<rparr>"
  by (simp add: example_facade_def constructor_def example_defaults_def example_config_def
      example_service_def spread_def nullish_def truthy_def setupAutoTrack_def optional_call_def
      service_call_def getConsentStore_def getStore_def addConsent_def setConsentStore_def
      Set_add_def Let_def)


lemma example_configured:
  "configured_provider example_defaults example_config =
     Some \<lparr>store = [''performance''], setStore_calls = []\<rparr>"
  by (simp add: configured_provider_def example_defaults_def example_config_def spread_def
      nullish_def)


lemma set_property_fresh:
  "k \<notin> set (Object_keys obj) \<Longrightarrow> set_property k v obj = obj @ [(k, v)]"
  by (induction obj) (auto simp: Object_keys_def)







text \<open>What the operations leave alone.\<close>

lemma setupAutoTrack_calls:
  "calls (metricsService (setupAutoTrack s)) =
     calls (metricsService s) @
     (if web (metricsService s)
      then [track_clicks, track_forms, track_links, track_scrolls, track_sessions] else []) @
     [track_errors, track_pageview, track_view None None None]"
  by (simp add: setupAutoTrack_def optional_call_def service_call_def Let_def)

lemma setupAutoTrack_fields:
  "sessionStarted (setupAutoTrack s) = sessionStarted s"
  "consentGranted (setupAutoTrack s) = consentGranted s"
  "storageProvider (setupAutoTrack s) = storageProvider s"
  "initDone (setupAutoTrack s) = initDone s"
  "web (metricsService (setupAutoTrack s)) = web (metricsService s)"
  by (simp_all add: setupAutoTrack_def optional_call_def service_call_def Let_def)

lemma forEach_group_sessionStarted:
  "sessionStarted (forEach_group A ks s) = sessionStarted s"
  by (induction ks arbitrary: s)
     (simp_all add: update_group_def addConsent_fields removeConsent_fields)

lemma forEach_group_initDone: "initDone (forEach_group A ks s) = initDone s"
  by (induction ks arbitrary: s)
     (simp_all add: update_group_def addConsent_fields removeConsent_fields)

lemma step_initDone: "initDone (step x s) = initDone s"
  by (cases x)
     (simp_all add: addConsent_fields removeConsent_fields updateConsent_def Let_def
       forEach_group_initDone setupAutoTrack_fields trackView_def trackEvent_def trackError_def
       startSession_def endSession_def service_call_fields)

lemma run_initDone: "initDone (run ops s) = initDone s"
  by (induction ops arbitrary: s) (simp_all add: step_initDone)

text \<open>Storage: when a consent call writes, and what the constructor leaves behind.\<close>

lemma addConsent_storage:
  "storageProvider (addConsent c s) =
     (case storageProvider s of
        Some p \<Rightarrow>
          if initDone s then Some (setStore (consentGranted (addConsent c s)) p) else Some p
      | None \<Rightarrow> None)"
  by (simp add: addConsent_def Let_def setConsentStore_def service_call_def
      split: option.splits)

lemma removeConsent_storage:
  "storageProvider (removeConsent c s) =
     (case storageProvider s of
        Some p \<Rightarrow>
          if initDone s then Some (setStore (consentGranted (removeConsent c s)) p) else Some p
      | None \<Rightarrow> None)"
  by (simp add: removeConsent_def Let_def setConsentStore_def service_call_def
      split: option.splits)

lemma constructor_storage:
  "storageProvider (constructor defaults cfg) = configured_provider defaults cfg"
  by (simp add: constructor_def Let_def configured_provider_def addConsent_storage
      setupAutoTrack_fields service_call_fields split: option.splits)

lemma constructor_initDone: "initDone (constructor defaults cfg)"
  by (simp add: constructor_def Let_def)

lemma constructor_consentGranted:
  "consentGranted (constructor defaults cfg) = new_Set (persisted defaults cfg)"
  by (simp add: constructor_def Let_def persisted_def configured_provider_def new_Set_def
      getConsentStore_def addConsent_fields setupAutoTrack_fields service_call_fields)

lemma constructor_not_started: "sessionStarted (constructor defaults cfg) = False"
  by (simp add: constructor_def Let_def addConsent_fields setupAutoTrack_fields
      service_call_fields)

lemma forEach_group_no_storage:
  "storageProvider s = None \<Longrightarrow> storageProvider (forEach_group A ks s) = None"
  by (induction ks arbitrary: s)
     (simp_all add: update_group_def addConsent_storage removeConsent_storage)

lemma step_no_storage: "storageProvider s = None \<Longrightarrow> storageProvider (step x s) = None"
  by (cases x)
     (simp_all add: addConsent_storage removeConsent_storage updateConsent_def Let_def
       forEach_group_no_storage setupAutoTrack_fields trackView_def trackEvent_def
       trackError_def startSession_def endSession_def service_call_fields)

lemma run_no_storage: "storageProvider s = None \<Longrightarrow> storageProvider (run ops s) = None"
  by (induction ops arbitrary: s) (simp_all add: step_no_storage)

lemma constructor_calls_no_storage:
  "configured_provider defaults cfg = None \<Longrightarrow>
   calls (metricsService (constructor defaults cfg)) =
     calls (cfg_metricsService cfg) @ [init, group_features groupedFeatures] @
     (if truthy (spread (opt_autoTrack defaults) (opt_autoTrack cfg))
      then (if web (cfg_metricsService cfg)
            then [track_clicks, track_forms, track_links, track_scrolls, track_sessions]
            else []) @ [track_errors, track_pageview, track_view None None None]
      else [])"
  by (simp add: constructor_def Let_def configured_provider_def getConsentStore_def
      setupAutoTrack_calls setupAutoTrack_fields service_call_fields)

text \<open>The ledger gains a name only from an operation that supplies it.\<close>

lemma step_adds_supplied:
  "n \<in> set (consentGranted (step x s)) \<Longrightarrow> n \<in> set (consentGranted s) \<or> supplies n x"
  by (cases x)
     (auto simp: addConsent_fields removeConsent_fields set_fold_Set_add fold_Set_delete
       updateConsent_def Let_def forEach_group_members set_new_Set setupAutoTrack_fields
       trackView_def trackEvent_def trackError_def startSession_def endSession_def
       service_call_fields split: if_splits)

lemma run_adds_supplied:
  "n \<in> set (consentGranted (run ops s)) \<Longrightarrow>
     n \<in> set (consentGranted s) \<or> (\<exists>x \<in> set ops. supplies n x)"
proof (induction ops arbitrary: s)
  case Nil
  then show ?case by simp
next
  case (Cons x ops)
  from Cons.prems have "n \<in> set (consentGranted (run ops (step x s)))"
    by simp
  then have "n \<in> set (consentGranted (step x s)) \<or> (\<exists>y \<in> set ops. supplies n y)"
    by (rule Cons.IH)
  then show ?case
    using step_adds_supplied [of n x s] by auto
qed

text \<open>The ledger stays inside the catalog when it starts there and only keys are added.\<close>

lemma step_ledger_bound:
  "set (consentGranted (step x s)) \<subseteq>
     set (consentGranted s) \<union> set (added_names x) \<union> set (Object_keys groupedFeatures)"
  by (cases x)
     (auto simp: addConsent_fields removeConsent_fields set_fold_Set_add fold_Set_delete
       updateConsent_def Let_def forEach_group_members set_new_Set setupAutoTrack_fields
       trackView_def trackEvent_def trackError_def startSession_def endSession_def
       service_call_fields split: if_splits)

lemma run_keeps_catalog:
  "set (consentGranted s) \<subseteq> set (Object_keys groupedFeatures) \<Longrightarrow>
   \<forall>x \<in> set ops. set (added_names x) \<subseteq> set (Object_keys groupedFeatures) \<Longrightarrow>
     set (consentGranted (run ops s)) \<subseteq> set (Object_keys groupedFeatures)"
proof (induction ops arbitrary: s)
  case Nil
  then show ?case by simp
next
  case (Cons x ops)
  have "set (consentGranted (step x s)) \<subseteq> set (Object_keys groupedFeatures)"
    using step_ledger_bound [of x s] Cons.prems by auto
  then show ?case
    using Cons.IH [of "step x s"] Cons.prems by simp
qed

text \<open>Session calls in the log: each operation extends the log by a legal piece.\<close>

lemma session_trace_append:
  "session_trace a (xs @ ys) =
     (case session_trace a xs of None \<Rightarrow> None | Some b \<Rightarrow> session_trace b ys)"
  by (induction a xs rule: session_trace.induct) simp_all

lemma session_trace_consent_calls:
  "session_trace a
     (map (\<lambda>k. if P k then add_consent [k] else remove_consent [k] True) ks) = Some a"
  by (induction ks) simp_all

lemma alternates_rejects:
  "\<not> alternates [end_session None False]"
  "\<not> alternates [begin_session False False, track_errors, begin_session False False]"
  "\<not> alternates [begin_session False False, end_session None False, end_session None False]"
  by (simp_all add: alternates_def)

lemma step_session_trace:
  "\<exists>new. calls (metricsService (step x s)) = calls (metricsService s) @ new
     \<and> session_trace (sessionStarted s) new = Some (sessionStarted (step x s))"
proof (cases x)
  case (AddConsent c)
  then show ?thesis by (simp add: addConsent_fields)
next
  case (RemoveConsent c)
  then show ?thesis by (simp add: removeConsent_fields)
next
  case (UpdateConsent cs)
  then show ?thesis
    by (simp add: updateConsent_def Let_def forEach_group_calls forEach_group_sessionStarted
        session_trace_consent_calls)
next
  case SetupAutoTrack
  then show ?thesis by (simp add: setupAutoTrack_calls setupAutoTrack_fields)
next
  case (TrackView p i v)
  then show ?thesis by (simp add: trackView_def service_call_fields)
next
  case (TrackEvent e)
  then show ?thesis by (simp add: trackEvent_def service_call_fields)
next
  case (TrackError e n g)
  then show ?thesis by (simp add: trackError_def service_call_fields)
next
  case (StartSession n f)
  then show ?thesis by (simp add: startSession_def service_call_def)
next
  case (EndSession f)
  then show ?thesis by (simp add: endSession_def service_call_def)
qed

lemma run_session_trace:
  "\<exists>new. calls (metricsService (run ops s)) = calls (metricsService s) @ new
     \<and> session_trace (sessionStarted s) new = Some (sessionStarted (run ops s))"
proof (induction ops arbitrary: s)
  case Nil
  show ?case by simp
next
  case (Cons x ops)
  obtain n1 where 1: "calls (metricsService (step x s)) = calls (metricsService s) @ n1"
    "session_trace (sessionStarted s) n1 = Some (sessionStarted (step x s))"
    using step_session_trace by blast
  obtain n2 where 2: "calls (metricsService (run ops (step x s))) =
      calls (metricsService (step x s)) @ n2"
    "session_trace (sessionStarted (step x s)) n2 = Some (sessionStarted (run ops (step x s)))"
    using Cons.IH by blast
  have "calls (metricsService (run (x # ops) s)) = calls (metricsService s) @ (n1 @ n2)"
    by (simp add: 1 2)
  moreover have "session_trace (sessionStarted s) (n1 @ n2) =
      Some (sessionStarted (run (x # ops) s))"
    by (simp add: session_trace_append 1 2)
  ultimately show ?case by blast
qed


section \<open>Reconciliation of consent\<close>

text \<open>
  C1, as the code has it. For every input list \<open>C\<close> and every state,
  \<^verbatim>\<open>updateConsent(C)\<close> walks the keys of the catalog, and only those, in their order:
  it calls \<^verbatim>\<open>addConsent\<close> for a key that is in \<open>C\<close> and \<^verbatim>\<open>removeConsent\<close> for a key
  that is not, so the service receives exactly one consent call per key. Afterwards the
  granted set is the set of catalog keys present in \<open>C\<close> together with the names
  that were granted before and are not catalog keys: those are never touched. When the
  ledger held catalog keys only, the granted set is exactly the set of catalog keys
  present in \<open>C\<close>, and \<^verbatim>\<open>updateConsent([])\<close> leaves it empty. A constructed facade
  has such a ledger, and keeps it, when the persisted list holds catalog keys only and
  every name given to \<^verbatim>\<open>addConsent\<close> is a catalog key.
\<close>

theorem updateConsent_reconciles:
  "updateConsent C s =
     fold (\<lambda>k. if k \<in> set C then addConsent (One k) else removeConsent (One k))
       (Object_keys groupedFeatures) s
   \<and> issued (metricsService s) (metricsService (updateConsent C s)) =
     map (\<lambda>k. if k \<in> set C then add_consent [k] else remove_consent [k] True)
       (Object_keys groupedFeatures)
   \<and> set (get_consentGranted (updateConsent C s)) =
     (set (consentGranted s) - set (Object_keys groupedFeatures))
     \<union> {k \<in> set (Object_keys groupedFeatures). k \<in> set C}
   \<and> (set (consentGranted s) \<subseteq> set (Object_keys groupedFeatures) \<longrightarrow>
        set (get_consentGranted (updateConsent C s)) =
          {k \<in> set (Object_keys groupedFeatures). k \<in> set C}
        \<and> get_consentGranted (updateConsent [] s) = [])
   \<and> (set (persisted defaults cfg) \<subseteq> set (Object_keys groupedFeatures)
        \<and> (\<forall>x \<in> set ops. set (added_names x) \<subseteq> set (Object_keys groupedFeatures)) \<longrightarrow>
        set (consentGranted (run ops (constructor defaults cfg)))
          \<subseteq> set (Object_keys groupedFeatures))"
proof -
  have upd: "update_group (new_Set C) =
      (\<lambda>k. if k \<in> set C then addConsent (One k) else removeConsent (One k))"
    by (rule ext)+ (simp add: update_group_def Set_has_def set_new_Set)
  have visits: "updateConsent C s =
      fold (\<lambda>k. if k \<in> set C then addConsent (One k) else removeConsent (One k))
        (Object_keys groupedFeatures) s"
    by (simp add: updateConsent_def Let_def forEach_group_fold upd)
  have log: "issued (metricsService s) (metricsService (updateConsent C s)) =
      map (\<lambda>k. if k \<in> set C then add_consent [k] else remove_consent [k] True)
        (Object_keys groupedFeatures)"
    by (simp add: issued_def updateConsent_def Let_def forEach_group_calls set_new_Set)
  have general: "set (get_consentGranted (updateConsent D s)) =
      (set (consentGranted s) - set (Object_keys groupedFeatures))
      \<union> {k \<in> set (Object_keys groupedFeatures). k \<in> set D}" for D
    by (auto simp: get_consentGranted_def updateConsent_def Let_def forEach_group_members
        set_new_Set)
  have members: "set (get_consentGranted (updateConsent D s)) =
      {k \<in> set (Object_keys groupedFeatures). k \<in> set D}"
    if "set (consentGranted s) \<subseteq> set (Object_keys groupedFeatures)" for D
    using that by (auto simp: general)
  have none: "get_consentGranted (updateConsent [] s) = []"
    if "set (consentGranted s) \<subseteq> set (Object_keys groupedFeatures)"
  proof -
    have "set (get_consentGranted (updateConsent [] s)) = {}"
      using members [OF that, of "[]"] by simp
    then show ?thesis by simp
  qed
  have kept: "set (persisted defaults cfg) \<subseteq> set (Object_keys groupedFeatures)
        \<and> (\<forall>x \<in> set ops. set (added_names x) \<subseteq> set (Object_keys groupedFeatures)) \<longrightarrow>
        set (consentGranted (run ops (constructor defaults cfg)))
          \<subseteq> set (Object_keys groupedFeatures)"
    using run_keeps_catalog [of "constructor defaults cfg" ops]
    by (simp add: constructor_consentGranted set_new_Set)
  from visits log general members none kept show ?thesis
    by blast
qed

theorem updateConsent_reconciles_witness:
  "set (consentGranted example_facade) \<subseteq> set (Object_keys groupedFeatures)
   \<and> set (get_consentGranted (updateConsent [''minimal'', ''bogus''] example_facade)) =
       {''minimal''}
   \<and> get_consentGranted (updateConsent [] example_facade) = []
   \<and> set (persisted example_defaults example_config) \<subseteq> set (Object_keys groupedFeatures)
   \<and> set (consentGranted (run [AddConsent (Many [''ux'', ''all'']), RemoveConsent (One ''ux'')]
        (constructor example_defaults example_config))) \<subseteq> set (Object_keys groupedFeatures)"
proof -
  have h: "set (consentGranted example_facade) \<subseteq> set (Object_keys groupedFeatures)"
    by (simp add: example_facade_value Object_keys_groupedFeatures)
  have e: "{k \<in> set (Object_keys groupedFeatures). k \<in> set [''minimal'', ''bogus'']} =
      {''minimal''}"
    by (auto simp: Object_keys_groupedFeatures)
  have q: "set (persisted example_defaults example_config) \<subseteq> set (Object_keys groupedFeatures)"
    by (simp add: persisted_def example_configured getStore_def Object_keys_groupedFeatures)
  have a: "\<forall>x \<in> set [AddConsent (Many [''ux'', ''all'']), RemoveConsent (One ''ux'')].
      set (added_names x) \<subseteq> set (Object_keys groupedFeatures)"
    by (simp add: Object_keys_groupedFeatures)
  note u = updateConsent_reconciles [where s = example_facade
      and C = "[''minimal'', ''bogus'']" and defaults = example_defaults
      and cfg = example_config
      and ops = "[AddConsent (Many [''ux'', ''all'']), RemoveConsent (One ''ux'')]"]
  note t = u [THEN conjunct2, THEN conjunct2, THEN conjunct2, THEN conjunct1,
      rule_format, OF h]
  have m: "set (get_consentGranted (updateConsent [''minimal'', ''bogus''] example_facade)) =
      {''minimal''}"
    using t [THEN conjunct1] e by (rule trans)
  have n: "get_consentGranted (updateConsent [] example_facade) = []"
    by (rule t [THEN conjunct2])
  have r: "set (consentGranted (run [AddConsent (Many [''ux'', ''all'']),
        RemoveConsent (One ''ux'')] (constructor example_defaults example_config)))
      \<subseteq> set (Object_keys groupedFeatures)"
    by (rule u [THEN conjunct2, THEN conjunct2, THEN conjunct2, THEN conjunct2,
          THEN mp, OF conjI, OF q a])
  show ?thesis
    by (intro conjI h m n q r)
qed

text \<open>
  The claim as the specification words it fails for a ledger that holds a name outside
  the catalog. A facade constructed over the persisted list
  \<^verbatim>\<open>["necessary", "performance"]\<close> still grants \<^verbatim>\<open>necessary\<close> after
  \<^verbatim>\<open>updateConsent([])\<close>; and after \<^verbatim>\<open>addConsent('bogus')\<close> on the example facade,
  \<^verbatim>\<open>updateConsent([])\<close> leaves \<^verbatim>\<open>bogus\<close> granted.
\<close>

theorem updateConsent_foreign_name_counterexample:
  "persisted example_defaults example_config_legacy = [''necessary'', ''performance'']
   \<and> ''necessary'' \<notin> set (Object_keys groupedFeatures)
   \<and> get_consentGranted
        (updateConsent [] (constructor example_defaults example_config_legacy)) =
       [''necessary'']
   \<and> get_consentGranted (run [AddConsent (One ''bogus''), UpdateConsent []] example_facade) =
       [''bogus'']"
  by (simp add: persisted_def configured_provider_def example_defaults_def
      example_config_legacy_def example_service_def get_consentGranted_def constructor_def
      spread_def nullish_def truthy_def getConsentStore_def getStore_def
      example_facade_value updateConsent_def Object_keys_groupedFeatures new_Set_def
      Set_add_def Set_delete_def update_group_def Set_has_def addConsent_def removeConsent_def
      service_call_def setConsentStore_def setStore_def Let_def)

text \<open>
  C9. For every input list \<open>C\<close>, \<^verbatim>\<open>updateConsent(C)\<close> adds to the ledger only catalog
  keys that are in \<open>C\<close>, and every name that it hands to \<^verbatim>\<open>add_consent\<close> or
  \<^verbatim>\<open>remove_consent\<close> is a catalog key. The entries of \<open>C\<close> outside the catalog
  change nothing: the input is read through membership tests only.
\<close>

theorem updateConsent_ignores_unknown:
  "set (consentGranted (updateConsent C s)) - set (consentGranted s)
     \<subseteq> set (Object_keys groupedFeatures) \<inter> set C
   \<and> (\<forall>c \<in> set (issued (metricsService s) (metricsService (updateConsent C s))).
        set (consent_names c) \<subseteq> set (Object_keys groupedFeatures))
   \<and> updateConsent C s =
       updateConsent (filter (\<lambda>c. c \<in> set (Object_keys groupedFeatures)) C) s"
proof -
  have "set (consentGranted (updateConsent C s)) - set (consentGranted s)
     \<subseteq> set (Object_keys groupedFeatures) \<inter> set C"
    by (auto simp: updateConsent_def Let_def forEach_group_members set_new_Set)
  moreover have "\<forall>c \<in> set (issued (metricsService s) (metricsService (updateConsent C s))).
        set (consent_names c) \<subseteq> set (Object_keys groupedFeatures)"
    by (auto simp: issued_def updateConsent_def Let_def forEach_group_calls)
  moreover have "updateConsent C s =
      updateConsent (filter (\<lambda>c. c \<in> set (Object_keys groupedFeatures)) C) s"
    unfolding updateConsent_def Let_def
    by (rule forEach_group_cong) (simp add: set_new_Set)
  ultimately show ?thesis by blast
qed

theorem updateConsent_ignores_unknown_witness:
  "consentGranted (updateConsent [''bogus'', ''ux'', ''toString''] example_facade) = [''ux'']
   \<and> issued (metricsService example_facade)
       (metricsService (updateConsent [''bogus'', ''ux'', ''toString''] example_facade)) =
       [remove_consent [''minimal''] True, remove_consent [''performance''] True,
        add_consent [''ux''], remove_consent [''feedback''] True,
        remove_consent [''location''] True, remove_consent [''all''] True]
   \<and> updateConsent [''bogus'', ''ux'', ''toString''] example_facade =
       updateConsent [''ux''] example_facade"
  using updateConsent_ignores_unknown [of "[''bogus'', ''ux'', ''toString'']" example_facade]
  by (simp add: Object_keys_groupedFeatures example_facade_value updateConsent_def new_Set_def
      Set_add_def Set_delete_def update_group_def Set_has_def addConsent_def removeConsent_def
      service_call_def setConsentStore_def setStore_def issued_def Let_def)


section \<open>Revoking consent\<close>




section \<open>The ledger and the name \<^verbatim>\<open>all\<close>\<close>

text \<open>
  C2, as the code has it. The ledger holds the names it is given, as given: nothing
  expands \<^verbatim>\<open>all\<close> into its member categories. The ledger of a constructed facade
  holds exactly the persisted names; \<^verbatim>\<open>addConsent\<close> adds exactly the given names and
  \<^verbatim>\<open>removeConsent\<close> removes exactly the given names; \<^verbatim>\<open>updateConsent(C)\<close> replaces
  the catalog keys of the ledger by the catalog keys in \<open>C\<close>; and after construction
  and any sequence of operations a name is in the ledger only if the persisted list held
  it or an operation supplied it (to \<^verbatim>\<open>addConsent\<close>, or in the list of
  \<^verbatim>\<open>updateConsent\<close>). So the ledger contains \<^verbatim>\<open>all\<close> only if it was persisted or
  supplied, and when \<^verbatim>\<open>all\<close> is supplied, it is stored literally.
\<close>

theorem all_stored_as_supplied:
  "(''all'' \<notin> set (persisted defaults cfg) \<and> (\<forall>x \<in> set ops. \<not> supplies ''all'' x) \<longrightarrow>
      ''all'' \<notin> set (consentGranted (run ops (constructor defaults cfg))))
   \<and> (''all'' \<in> set (to_array c) \<longrightarrow> ''all'' \<in> set (consentGranted (addConsent c s)))
   \<and> (''all'' \<in> set C \<longrightarrow> ''all'' \<in> set (consentGranted (updateConsent C s)))
   \<and> set (consentGranted (constructor defaults cfg)) = set (persisted defaults cfg)
   \<and> set (consentGranted (addConsent c s)) = set (consentGranted s) \<union> set (to_array c)
   \<and> set (consentGranted (removeConsent c s)) = set (consentGranted s) - set (to_array c)
   \<and> set (consentGranted (updateConsent C s)) =
       (set (consentGranted s) - set (Object_keys groupedFeatures))
       \<union> {k \<in> set (Object_keys groupedFeatures). k \<in> set C}
   \<and> (n \<notin> set (persisted defaults cfg) \<and> (\<forall>x \<in> set ops. \<not> supplies n x) \<longrightarrow>
        n \<notin> set (consentGranted (run ops (constructor defaults cfg))))"
proof -
  have g: "m \<notin> set (persisted defaults cfg) \<and> (\<forall>x \<in> set ops. \<not> supplies m x) \<longrightarrow>
      m \<notin> set (consentGranted (run ops (constructor defaults cfg)))" for m
    using run_adds_supplied [of m ops "constructor defaults cfg"]
    by (auto simp: constructor_consentGranted set_new_Set)
  have b: "''all'' \<in> set (to_array c) \<longrightarrow> ''all'' \<in> set (consentGranted (addConsent c s))"
    by (simp add: addConsent_fields set_fold_Set_add)
  have "''all'' \<in> set (Object_keys groupedFeatures)"
    by (simp add: Object_keys_groupedFeatures)
  then have c: "''all'' \<in> set C \<longrightarrow> ''all'' \<in> set (consentGranted (updateConsent C s))"
    by (simp add: updateConsent_def Let_def forEach_group_members set_new_Set)
  have d: "set (consentGranted (constructor defaults cfg)) = set (persisted defaults cfg)"
    by (simp add: constructor_consentGranted set_new_Set)
  have e: "set (consentGranted (addConsent c s)) = set (consentGranted s) \<union> set (to_array c)"
    by (simp add: addConsent_fields set_fold_Set_add)
  have f: "set (consentGranted (removeConsent c s)) = set (consentGranted s) - set (to_array c)"
    by (auto simp: removeConsent_fields fold_Set_delete)
  have u: "set (consentGranted (updateConsent C s)) =
       (set (consentGranted s) - set (Object_keys groupedFeatures))
       \<union> {k \<in> set (Object_keys groupedFeatures). k \<in> set C}"
    by (auto simp: updateConsent_def Let_def forEach_group_members set_new_Set)
  show ?thesis
    by (intro conjI g b c d e f u)
qed

theorem all_stored_as_supplied_witness:
  "''all'' \<notin> set (persisted example_defaults example_config)
   \<and> filter (supplies ''all'') [AddConsent (Many [''minimal'', ''ux'']),
        UpdateConsent [''location''], RemoveConsent (One ''all'')] = []
   \<and> ''all'' \<notin> set (consentGranted (run [AddConsent (Many [''minimal'', ''ux'']),
        UpdateConsent [''location''], RemoveConsent (One ''all'')]
        (constructor example_defaults example_config)))
   \<and> ''all'' \<in> set (to_array (Many [''ux'', ''all'']))
   \<and> ''all'' \<in> set (consentGranted (addConsent (Many [''ux'', ''all'']) example_facade))
   \<and> set (consentGranted (addConsent (Many [''ux'', ''all'']) example_facade)) =
       {''performance'', ''ux'', ''all''}
   \<and> ''all'' \<in> set [''all'', ''minimal'']
   \<and> ''all'' \<in> set (consentGranted (updateConsent [''all'', ''minimal''] example_facade))"
proof -
  have h: "''all'' \<notin> set (persisted example_defaults example_config)"
    by (simp add: persisted_def example_configured getStore_def)
  have g: "\<forall>x \<in> set [AddConsent (Many [''minimal'', ''ux'']), UpdateConsent [''location''],
        RemoveConsent (One ''all'')]. \<not> supplies ''all'' x"
    by simp
  note t = all_stored_as_supplied [where defaults = example_defaults and cfg = example_config
      and ops = "[AddConsent (Many [''minimal'', ''ux'']), UpdateConsent [''location''],
        RemoveConsent (One ''all'')]" and c = "Many [''ux'', ''all'']"
      and C = "[''all'', ''minimal'']" and s = example_facade]
  have f: "filter (supplies ''all'') [AddConsent (Many [''minimal'', ''ux'']),
        UpdateConsent [''location''], RemoveConsent (One ''all'')] = []"
    by simp
  have a: "''all'' \<in> set (to_array (Many [''ux'', ''all'']))"
    and u: "''all'' \<in> set [''all'', ''minimal'']"
    by simp_all
  have 1: "''all'' \<notin> set (consentGranted (run [AddConsent (Many [''minimal'', ''ux'']),
        UpdateConsent [''location''], RemoveConsent (One ''all'')]
        (constructor example_defaults example_config)))"
    by (rule t [THEN conjunct1, rule_format, OF conjI, OF h g])
  have 2: "''all'' \<in> set (consentGranted (addConsent (Many [''ux'', ''all'']) example_facade))"
    by (rule t [THEN conjunct2, THEN conjunct1, rule_format, OF a])
  have 3: "''all'' \<in> set (consentGranted (updateConsent [''all'', ''minimal''] example_facade))"
    by (rule t [THEN conjunct2, THEN conjunct2, THEN conjunct1, rule_format, OF u])
  have eq: "set (consentGranted (addConsent (Many [''ux'', ''all'']) example_facade)) =
      set (consentGranted example_facade) \<union> set (to_array (Many [''ux'', ''all'']))"
    by (rule t [THEN conjunct2, THEN conjunct2, THEN conjunct2, THEN conjunct2,
          THEN conjunct1])
  have cg: "consentGranted example_facade = [''performance'']"
    by (simp add: example_facade_value)
  have 4: "set (consentGranted (addConsent (Many [''ux'', ''all'']) example_facade)) =
       {''performance'', ''ux'', ''all''}"
    unfolding eq cg by auto
  show ?thesis
    by (intro conjI h f 1 a 2 4 u 3)
qed

text \<open>
  The claim as the specification words it fails: \<^verbatim>\<open>updateConsent(['all'])\<close> on the
  example facade leaves the ledger holding the literal \<^verbatim>\<open>all\<close> and nothing else, and
  \<^verbatim>\<open>addConsent('all')\<close> appends it.
\<close>

theorem all_literal_counterexample:
  "consentGranted (run [UpdateConsent [''all'']] example_facade) = [''all'']
   \<and> consentGranted (run [AddConsent (One ''all'')] example_facade) = [''performance'', ''all'']"
  by (simp add: example_facade_value updateConsent_def Object_keys_groupedFeatures new_Set_def
      Set_add_def Set_delete_def update_group_def Set_has_def addConsent_def removeConsent_def
      service_call_def setConsentStore_def setStore_def Let_def)


section \<open>Persistence\<close>

text \<open>
  C3. In a state where initialisation is done and a storage provider is present, every
  \<^verbatim>\<open>addConsent\<close> and every \<^verbatim>\<open>removeConsent\<close> makes one \<^verbatim>\<open>setStore\<close> call with
  the whole ledger as it stands after the change, so the store equals the ledger. A
  constructed facade is in such a state for good (\<^verbatim>\<open>initDone\<close> stays true). The
  constructor itself writes nothing: it leaves the provider as configured, with no
  \<^verbatim>\<open>setStore\<close> call added; with the persisted list \<^verbatim>\<open>["performance"]\<close> the granted
  list after construction is exactly \<^verbatim>\<open>['performance']\<close>.
\<close>

theorem storage_mirrors_ledger:
  "(initDone s \<and> storageProvider s = Some p \<longrightarrow>
      (\<exists>p'. storageProvider (addConsent c s) = Some p'
         \<and> store p' = consentGranted (addConsent c s)
         \<and> setStore_calls p' = setStore_calls p @ [consentGranted (addConsent c s)])
      \<and> (\<exists>p'. storageProvider (removeConsent c s) = Some p'
         \<and> store p' = consentGranted (removeConsent c s)
         \<and> setStore_calls p' = setStore_calls p @ [consentGranted (removeConsent c s)]))
   \<and> initDone (run ops (constructor defaults cfg))
   \<and> storageProvider (constructor defaults cfg) = configured_provider defaults cfg
   \<and> (persisted defaults cfg = [''performance''] \<longrightarrow>
        get_consentGranted (constructor defaults cfg) = [''performance''])"
  by (simp add: addConsent_storage removeConsent_storage setStore_def run_initDone
      constructor_initDone constructor_storage constructor_consentGranted get_consentGranted_def
      new_Set_def Set_add_def)

theorem storage_mirrors_ledger_witness:
  "persisted example_defaults example_config = [''performance'']
   \<and> get_consentGranted (constructor example_defaults example_config) = [''performance'']
   \<and> storageProvider (constructor example_defaults example_config) =
       Some \<lparr>store = [''performance''], setStore_calls = []\<rparr>
   \<and> initDone example_facade
   \<and> storageProvider example_facade = Some \<lparr>store = [''performance''], setStore_calls = []\<rparr>
   \<and> storageProvider (addConsent (One ''ux'') example_facade) =
       Some \<lparr>store = [''performance'', ''ux''], setStore_calls = [[''performance'', ''ux'']]\<rparr>"
proof -
  have h: "persisted example_defaults example_config = [''performance'']"
    by (simp add: persisted_def example_configured getStore_def)
  have i: "initDone example_facade"
    and sp: "storageProvider example_facade =
      Some \<lparr>store = [''performance''], setStore_calls = []\<rparr>"
    by (simp_all add: example_facade_value)
  note t = storage_mirrors_ledger [where defaults = example_defaults and cfg = example_config
      and s = example_facade and p = "\<lparr>store = [''performance''], setStore_calls = []\<rparr>"
      and c = "One ''ux''"]
  have g: "consentGranted (addConsent (One ''ux'') example_facade) = [''performance'', ''ux'']"
    by (simp add: addConsent_fields example_facade_value Set_add_def)
  from t i sp obtain p' where "storageProvider (addConsent (One ''ux'') example_facade) = Some p'"
    "store p' = consentGranted (addConsent (One ''ux'') example_facade)"
    "setStore_calls p' = [] @ [consentGranted (addConsent (One ''ux'') example_facade)]"
    by auto
  then have "storageProvider (addConsent (One ''ux'') example_facade) =
       Some \<lparr>store = [''performance'', ''ux''], setStore_calls = [[''performance'', ''ux'']]\<rparr>"
    by (simp add: g)
  with t h i sp show ?thesis
    by (simp add: example_configured)
qed

text \<open>
  C8. With no storage provider after the options are merged (the option is null or
  undefined, or missing with no default), the facade holds none: reading the consent
  store gives the empty list, the constructor restores nothing (empty ledger, no
  \<^verbatim>\<open>add_consent\<close> call), and \<^verbatim>\<open>setConsentStore\<close> is the identity, so no operation
  writes. Every operation of a sequence returns a state, still without a provider. The
  result of \<^verbatim>\<open>checkConsent\<close> does not depend on the state at all.
\<close>

theorem no_storage_is_noop:
  "(opt_storageProvider cfg = Null \<or> opt_storageProvider cfg = Undefined_value
      \<or> opt_storageProvider cfg = Absent \<and> opt_storageProvider defaults = Absent
    \<longrightarrow> configured_provider defaults cfg = None)
   \<and> (storageProvider s = None \<longrightarrow> getConsentStore s = [] \<and> setConsentStore s = s
        \<and> storageProvider (run ops s) = None)
   \<and> (configured_provider defaults cfg = None \<longrightarrow>
        persisted defaults cfg = []
        \<and> consentGranted (constructor defaults cfg) = []
        \<and> filter is_add_consent
            (issued (cfg_metricsService cfg) (metricsService (constructor defaults cfg))) = []
        \<and> storageProvider (run ops (constructor defaults cfg)) = None)"
proof -
  have a: "opt_storageProvider cfg = Null \<or> opt_storageProvider cfg = Undefined_value
      \<or> opt_storageProvider cfg = Absent \<and> opt_storageProvider defaults = Absent
    \<longrightarrow> configured_provider defaults cfg = None"
    by (auto simp: configured_provider_def spread_def nullish_def)
  have b: "storageProvider s = None \<longrightarrow> getConsentStore s = [] \<and> setConsentStore s = s
        \<and> storageProvider (run ops s) = None"
    by (simp add: getConsentStore_def setConsentStore_def run_no_storage)
  have c: "configured_provider defaults cfg = None \<longrightarrow>
        persisted defaults cfg = []
        \<and> consentGranted (constructor defaults cfg) = []
        \<and> filter is_add_consent
            (issued (cfg_metricsService cfg) (metricsService (constructor defaults cfg))) = []
        \<and> storageProvider (run ops (constructor defaults cfg)) = None"
  proof
    assume n: "configured_provider defaults cfg = None"
    then have p: "persisted defaults cfg = []"
      by (simp add: persisted_def)
    have "storageProvider (constructor defaults cfg) = None"
      by (simp add: constructor_storage n)
    then have "storageProvider (run ops (constructor defaults cfg)) = None"
      by (rule run_no_storage)
    moreover have "consentGranted (constructor defaults cfg) = []"
      by (simp add: constructor_consentGranted p new_Set_def)
    moreover have "filter is_add_consent
        (issued (cfg_metricsService cfg) (metricsService (constructor defaults cfg))) = []"
      by (simp add: issued_def constructor_calls_no_storage [OF n])
    ultimately show "persisted defaults cfg = []
        \<and> consentGranted (constructor defaults cfg) = []
        \<and> filter is_add_consent
            (issued (cfg_metricsService cfg) (metricsService (constructor defaults cfg))) = []
        \<and> storageProvider (run ops (constructor defaults cfg)) = None"
      using p by blast
  qed
  from a b c show ?thesis by blast
qed

theorem no_storage_is_noop_witness:
  "opt_storageProvider example_config_no_storage = Null
   \<and> configured_provider example_defaults example_config_no_storage = None
   \<and> consentGranted (constructor example_defaults example_config_no_storage) = []
   \<and> storageProvider (constructor example_defaults example_config_no_storage) = None
   \<and> getConsentStore (constructor example_defaults example_config_no_storage) = []
   \<and> storageProvider (run [AddConsent (One ''ux''), UpdateConsent [''minimal''],
        RemoveConsent (Many [''ux''])]
        (constructor example_defaults example_config_no_storage)) = None"
proof -
  have h: "opt_storageProvider example_config_no_storage = Null"
    by (simp add: example_config_no_storage_def)
  note t = no_storage_is_noop [where cfg = example_config_no_storage
      and defaults = example_defaults
      and s = "constructor example_defaults example_config_no_storage"
      and ops = "[AddConsent (One ''ux''), UpdateConsent [''minimal''],
        RemoveConsent (Many [''ux''])]"]
  from t h have n: "configured_provider example_defaults example_config_no_storage = None"
    by blast
  then have s: "storageProvider (constructor example_defaults example_config_no_storage) = None"
    by (simp add: constructor_storage)
  have g: "getConsentStore (constructor example_defaults example_config_no_storage) = []"
    using t [THEN conjunct2, THEN conjunct1, rule_format, OF s] by (rule conjunct1)
  note c = t [THEN conjunct2, THEN conjunct2, rule_format, OF n]
  have l: "consentGranted (constructor example_defaults example_config_no_storage) = []"
    using c by (rule conjunct2 [THEN conjunct1])
  have r: "storageProvider (run [AddConsent (One ''ux''), UpdateConsent [''minimal''],
        RemoveConsent (Many [''ux''])]
        (constructor example_defaults example_config_no_storage)) = None"
    using c by (rule conjunct2 [THEN conjunct2, THEN conjunct2])
  show ?thesis
    by (intro conjI h n l s g r)
qed


section \<open>Sessions\<close>

text \<open>
  C4. A constructed facade has no session. From a state without a session, two
  \<^verbatim>\<open>startSession\<close> calls in a row send exactly one \<^verbatim>\<open>begin_session\<close> to the service,
  with the arguments of the first call; an \<^verbatim>\<open>endSession\<close> in that state changes nothing
  and sends no \<^verbatim>\<open>end_session\<close>.
\<close>

theorem session_guard:
  "\<not> sessionStarted (constructor defaults cfg)
   \<and> (\<not> sessionStarted s \<longrightarrow>
        issued (metricsService s)
          (metricsService (startSession n2 f2 (startSession n1 f1 s))) =
          [begin_session (default_arg False n1) (default_arg False f1)]
        \<and> length (filter is_begin_session (issued (metricsService s)
            (metricsService (startSession n2 f2 (startSession n1 f1 s))))) = 1
        \<and> endSession f s = s
        \<and> filter is_end_session
            (issued (metricsService s) (metricsService (endSession f s))) = [])"
  by (simp add: constructor_not_started issued_def startSession_def endSession_def
      service_call_def)

theorem session_guard_witness:
  "\<not> sessionStarted example_facade
   \<and> length (filter is_begin_session (issued (metricsService example_facade)
        (metricsService (startSession None None (startSession None None example_facade))))) = 1
   \<and> filter is_end_session (issued (metricsService example_facade)
        (metricsService (endSession None example_facade))) = []"
proof -
  have h: "\<not> sessionStarted example_facade"
    by (simp add: example_facade_value)
  note t = session_guard [where s = example_facade and ?n1.0 = None and ?f1.0 = None
      and ?n2.0 = None and ?f2.0 = None and f = None and defaults = example_defaults
      and cfg = example_config, THEN conjunct2, rule_format, OF h]
  from t h show ?thesis by blast
qed

text \<open>
  C10. From a state without a session, after any sequence of operations (of
  \<^verbatim>\<open>startSession\<close> and \<^verbatim>\<open>endSession\<close> calls in particular), the \<^verbatim>\<open>begin_session\<close> and
  \<^verbatim>\<open>end_session\<close> calls that reached the service alternate strictly, a
  \<^verbatim>\<open>begin_session\<close> first. After a start and an end, the next \<^verbatim>\<open>startSession\<close> sends a
  fresh \<^verbatim>\<open>begin_session\<close>.
\<close>

theorem session_calls_alternate:
  assumes "\<not> sessionStarted s"
  shows "alternates (issued (metricsService s) (metricsService (run ops s)))
         \<and> issued (metricsService s)
             (metricsService (run [StartSession n1 f1, EndSession f2, StartSession n3 f3] s)) =
           [begin_session (default_arg False n1) (default_arg False f1),
            end_session None (default_arg False f2),
            begin_session (default_arg False n3) (default_arg False f3)]"
proof -
  obtain new where new: "calls (metricsService (run ops s)) = calls (metricsService s) @ new"
    "session_trace (sessionStarted s) new = Some (sessionStarted (run ops s))"
    using run_session_trace by blast
  have "issued (metricsService s) (metricsService (run ops s)) = new"
    by (simp add: issued_def new)
  then have "alternates (issued (metricsService s) (metricsService (run ops s)))"
    using assms new by (simp add: alternates_def)
  moreover have "issued (metricsService s)
             (metricsService (run [StartSession n1 f1, EndSession f2, StartSession n3 f3] s)) =
           [begin_session (default_arg False n1) (default_arg False f1),
            end_session None (default_arg False f2),
            begin_session (default_arg False n3) (default_arg False f3)]"
    using assms by (simp add: issued_def startSession_def endSession_def service_call_def)
  ultimately show ?thesis by blast
qed

theorem session_calls_alternate_witness:
  "\<not> sessionStarted example_facade
   \<and> issued (metricsService example_facade)
       (metricsService (run [EndSession None, StartSession None None,
          StartSession (Some True) None, EndSession (Some True), EndSession None,
          StartSession None None] example_facade)) =
     [begin_session False False, end_session None True, begin_session False False]
   \<and> alternates [begin_session False False, end_session None True, begin_session False False]"
proof -
  have h: "\<not> sessionStarted example_facade"
    by (simp add: example_facade_value)
  have e: "issued (metricsService example_facade)
       (metricsService (run [EndSession None, StartSession None None,
          StartSession (Some True) None, EndSession (Some True), EndSession None,
          StartSession None None] example_facade)) =
     [begin_session False False, end_session None True, begin_session False False]"
    by (simp add: example_facade_value issued_def startSession_def endSession_def
        service_call_def default_arg_def)
  from session_calls_alternate [OF h, of "[EndSession None, StartSession None None,
      StartSession (Some True) None, EndSession (Some True), EndSession None,
      StartSession None None]"] e h
  show ?thesis by simp
qed


section \<open>The catalog\<close>

text \<open>
  C6. For every input mapping without the key \<^verbatim>\<open>all\<close>, \<^verbatim>\<open>mapAllEvents\<close> returns the
  input followed by one new entry, \<^verbatim>\<open>all\<close>, whose list is the concatenation of the
  lists of the input in key order (nothing is dropped or reordered, repeated flags
  stay repeated); every other key keeps its position and its list.
\<close>

theorem mapAllEvents_adds_all:
  assumes "''all'' \<notin> set (Object_keys eventMap)"
  shows "mapAllEvents eventMap = eventMap @ [(''all'', concat (map snd eventMap))]
         \<and> Object_keys (mapAllEvents eventMap) = Object_keys eventMap @ [''all'']
         \<and> map_of (mapAllEvents eventMap) ''all'' = Some (concat (map snd eventMap))
         \<and> (\<forall>k. k \<noteq> ''all'' \<longrightarrow> map_of (mapAllEvents eventMap) k = map_of eventMap k)"
proof -
  have eq: "mapAllEvents eventMap = eventMap @ [(''all'', concat (map snd eventMap))]"
    using assms by (simp add: mapAllEvents_def set_property_fresh flat_def Object_values_def)
  have "map_of eventMap ''all'' = None"
    using assms by (simp add: map_of_eq_None_iff Object_keys_def)
  then have "map_of (mapAllEvents eventMap) ''all'' = Some (concat (map snd eventMap))"
    by (simp add: eq map_add_def)
  moreover have "\<forall>k. k \<noteq> ''all'' \<longrightarrow> map_of (mapAllEvents eventMap) k = map_of eventMap k"
    by (simp add: eq map_add_def split: option.splits)
  moreover have "Object_keys (mapAllEvents eventMap) = Object_keys eventMap @ [''all'']"
    by (simp add: eq Object_keys_def)
  ultimately show ?thesis using eq by blast
qed

theorem mapAllEvents_adds_all_witness:
  "''all'' \<notin> set (Object_keys [(''minimal'', [''sessions'', ''views'', ''events'']),
      (''performance'', [''crashes'', ''apm''])])
   \<and> mapAllEvents [(''minimal'', [''sessions'', ''views'', ''events'']),
      (''performance'', [''crashes'', ''apm''])] =
      [(''minimal'', [''sessions'', ''views'', ''events'']),
       (''performance'', [''crashes'', ''apm'']),
       (''all'', [''sessions'', ''views'', ''events'', ''crashes'', ''apm''])]
   \<and> ''performance'' \<noteq> ''all''
   \<and> map_of (mapAllEvents [(''minimal'', [''sessions'', ''views'', ''events'']),
      (''performance'', [''crashes'', ''apm''])]) ''performance'' = Some [''crashes'', ''apm'']"
proof -
  have h: "''all'' \<notin> set (Object_keys [(''minimal'', [''sessions'', ''views'', ''events'']),
      (''performance'', [''crashes'', ''apm''])])"
    by (simp add: Object_keys_def)
  have n: "''performance'' \<noteq> ''all''"
    by simp
  note t = mapAllEvents_adds_all [OF h]
  have e: "mapAllEvents [(''minimal'', [''sessions'', ''views'', ''events'']),
      (''performance'', [''crashes'', ''apm''])] =
      [(''minimal'', [''sessions'', ''views'', ''events'']),
       (''performance'', [''crashes'', ''apm'']),
       (''all'', [''sessions'', ''views'', ''events'', ''crashes'', ''apm''])]"
    using t [THEN conjunct1] by simp
  have "map_of (mapAllEvents [(''minimal'', [''sessions'', ''views'', ''events'']),
      (''performance'', [''crashes'', ''apm''])]) ''performance'' =
      map_of [(''minimal'', [''sessions'', ''views'', ''events'']),
      (''performance'', [''crashes'', ''apm''])] ''performance''"
    by (rule t [THEN conjunct2, THEN conjunct2, THEN conjunct2, rule_format, OF n])
  then have "map_of (mapAllEvents [(''minimal'', [''sessions'', ''views'', ''events'']),
      (''performance'', [''crashes'', ''apm''])]) ''performance'' = Some [''crashes'', ''apm'']"
    by simp
  then have m: "map_of (mapAllEvents [(''minimal'', [''sessions'', ''views'', ''events'']),
      (''performance'', [''crashes'', ''apm''])]) ''performance'' = Some [''crashes'', ''apm'']" .
  show ?thesis
    by (intro conjI h e n m)
qed


section \<open>Checking consent\<close>




end
